theory Spec2Isabelle
  imports
    Main
    "HOL-Library.Word"
    "HOL-Library.Char_ord"
    "HOL-Library.List_Lexorder"
    "HOL-Library.Sublist"
begin

section \<open>Values held by Go's empty interface\<close>

text \<open>
  The helpers of \<^verbatim>\<open>compiler/helpers.go\<close> work on what \<^verbatim>\<open>yaml.Unmarshal\<close> stores
  in an \<^verbatim>\<open>interface{}\<close>: the nil interface, a scalar, a slice of values, or a
  \<^verbatim>\<open>yaml.MapSlice\<close>, which is a slice of \<^verbatim>\<open>MapItem{Key, Value interface{}}\<close>.
  A key is itself an \<^verbatim>\<open>interface{}\<close>: YAML allows \<^verbatim>\<open>1: x\<close>, whose key is an int.
  A nil and an empty \<^verbatim>\<open>MapSlice\<close> are both the empty list: no function of the file
  tells them apart (both pass the type assertion, both range over nothing).
\<close>

datatype iface =
    NilV
  | BoolV bool
  | IntV int
  | FloatV "64 word"
  | StrV string
  | SeqV "iface list"
  | MapV "(iface \<times> iface) list"

type_synonym MapSlice = "(iface \<times> iface) list"

text \<open>
  How a call ends when it does not return: \<^verbatim>\<open>os.Exit\<close> (also behind
  \<^verbatim>\<open>log.Fatal\<close>) ends the process with a status; a failed type assertion
  \<^verbatim>\<open>item.Key.(string)\<close>, the explicit \<^verbatim>\<open>panic(err)\<close> of \<^verbatim>\<open>PatternMatches\<close> and
  a nil pointer dereference are run-time panics.
\<close>

datatype failure =
    OsExit int
  | PanicTypeAssert
  | PanicRegexp
  | PanicNilDeref

section \<open>Key-set helpers\<close>

text \<open>\<^verbatim>\<open>UnpackMap\<close>: the checked type assertion \<^verbatim>\<open>in.(yaml.MapSlice)\<close>.\<close>

fun UnpackMap :: "iface \<Rightarrow> MapSlice \<times> bool" where
  "UnpackMap (MapV m) = (m, True)"
| "UnpackMap _ = ([], False)"

text \<open>The loop of \<^verbatim>\<open>SortedKeysForMap\<close>; \<^verbatim>\<open>item.Key.(string)\<close> panics on a key that is
  not a string.\<close>

fun SortedKeysForMap_loop :: "MapSlice \<Rightarrow> string list \<Rightarrow> failure + string list" where
  "SortedKeysForMap_loop [] keys = Inr keys"
| "SortedKeysForMap_loop ((StrV s, v) # m) keys = SortedKeysForMap_loop m (keys @ [s])"
| "SortedKeysForMap_loop ((k, v) # m) keys = Inl PanicTypeAssert"

text \<open>\<^verbatim>\<open>sort.Strings\<close> orders by Go's \<^verbatim>\<open><\<close> on strings, bytewise lexicographic: the
  order of \<^typ>\<open>char list\<close> here.\<close>

definition SortedKeysForMap :: "MapSlice \<Rightarrow> failure + string list" where
  "SortedKeysForMap m =
     (case SortedKeysForMap_loop m [] of
        Inl f \<Rightarrow> Inl f
      | Inr keys \<Rightarrow> Inr (sort keys))"

fun MapHasKey :: "MapSlice \<Rightarrow> string \<Rightarrow> failure + bool" where
  "MapHasKey [] key = Inr False"
| "MapHasKey ((StrV s, v) # m) key = (if key = s then Inr True else MapHasKey m key)"
| "MapHasKey ((k, v) # m) key = Inl PanicTypeAssert"

fun MapValueForKey :: "MapSlice \<Rightarrow> string \<Rightarrow> failure + iface" where
  "MapValueForKey [] key = Inr NilV"
| "MapValueForKey ((StrV s, v) # m) key = (if key = s then Inr v else MapValueForKey m key)"
| "MapValueForKey ((k, v) # m) key = Inl PanicTypeAssert"

fun ConvertInterfaceArrayToStringArray :: "iface list \<Rightarrow> string list" where
  "ConvertInterfaceArrayToStringArray [] = []"
| "ConvertInterfaceArrayToStringArray (StrV s # xs) = s # ConvertInterfaceArrayToStringArray xs"
| "ConvertInterfaceArrayToStringArray (x # xs) = ConvertInterfaceArrayToStringArray xs"

text \<open>
  \<^verbatim>\<open>regexp.Match(pattern, b)\<close> belongs to Go's library, so it is a parameter: it gives
  \<open>None\<close> for the error it returns on a pattern that does not compile, and
  \<open>Some matched\<close> otherwise. \<^verbatim>\<open>PatternMatches\<close> turns the error into a panic.
\<close>

type_synonym regexp_Match = "string \<Rightarrow> string \<Rightarrow> bool option"

definition PatternMatches :: "regexp_Match \<Rightarrow> string \<Rightarrow> string \<Rightarrow> failure + bool" where
  "PatternMatches rx pattern val =
     (case rx pattern val of
        None \<Rightarrow> Inl PanicRegexp
      | Some matched \<Rightarrow> Inr matched)"

fun MissingKeysInMap_loop :: "MapSlice \<Rightarrow> string list \<Rightarrow> string list \<Rightarrow> failure + string list" where
  "MissingKeysInMap_loop m [] missingKeys = Inr missingKeys"
| "MissingKeysInMap_loop m (k # requiredKeys) missingKeys =
     (case MapHasKey m k of
        Inl f \<Rightarrow> Inl f
      | Inr has \<Rightarrow>
          MissingKeysInMap_loop m requiredKeys
            (if \<not> has then missingKeys @ [k] else missingKeys))"

definition MissingKeysInMap :: "MapSlice \<Rightarrow> string list \<Rightarrow> failure + string list" where
  "MissingKeysInMap m requiredKeys = MissingKeysInMap_loop m requiredKeys []"

text \<open>The two inner loops of \<^verbatim>\<open>InvalidKeysInMap\<close>, each leaving at the first hit.\<close>

fun allowedKey_found :: "string \<Rightarrow> string list \<Rightarrow> bool" where
  "allowedKey_found key [] = False"
| "allowedKey_found key (allowedKey # allowedKeys) =
     (if key = allowedKey then True else allowedKey_found key allowedKeys)"

fun allowedPattern_found :: "regexp_Match \<Rightarrow> string \<Rightarrow> string list \<Rightarrow> failure + bool" where
  "allowedPattern_found rx key [] = Inr False"
| "allowedPattern_found rx key (allowedPattern # allowedPatterns) =
     (case PatternMatches rx allowedPattern key of
        Inl f \<Rightarrow> Inl f
      | Inr matched \<Rightarrow>
          if matched then Inr True else allowedPattern_found rx key allowedPatterns)"

fun InvalidKeysInMap_loop ::
  "regexp_Match \<Rightarrow> MapSlice \<Rightarrow> string list \<Rightarrow> string list \<Rightarrow> string list
     \<Rightarrow> failure + string list" where
  "InvalidKeysInMap_loop rx [] allowedKeys allowedPatterns invalidKeys = Inr invalidKeys"
| "InvalidKeysInMap_loop rx ((StrV key, v) # m) allowedKeys allowedPatterns invalidKeys =
     (if allowedKey_found key allowedKeys
      then InvalidKeysInMap_loop rx m allowedKeys allowedPatterns invalidKeys
      else
        (case allowedPattern_found rx key allowedPatterns of
           Inl f \<Rightarrow> Inl f
         | Inr found \<Rightarrow>
             InvalidKeysInMap_loop rx m allowedKeys allowedPatterns
               (if \<not> found then invalidKeys @ [key] else invalidKeys)))"
| "InvalidKeysInMap_loop rx ((k, v) # m) allowedKeys allowedPatterns invalidKeys =
     Inl PanicTypeAssert"

definition InvalidKeysInMap ::
  "regexp_Match \<Rightarrow> MapSlice \<Rightarrow> string list \<Rightarrow> string list \<Rightarrow> failure + string list" where
  "InvalidKeysInMap rx m allowedKeys allowedPatterns =
     InvalidKeysInMap_loop rx m allowedKeys allowedPatterns []"

text \<open>A mapping in the sense of the specification: every key is a string.\<close>

fun string_keys :: "MapSlice \<Rightarrow> bool" where
  "string_keys [] = True"
| "string_keys ((StrV s, v) # m) = string_keys m"
| "string_keys ((k, v) # m) = False"

fun key_strings :: "MapSlice \<Rightarrow> string list" where
  "key_strings [] = []"
| "key_strings ((StrV s, v) # m) = s # key_strings m"
| "key_strings ((k, v) # m) = key_strings m"

section \<open>Loading a document\<close>

text \<open>
  What \<^verbatim>\<open>ReadFile\<close> and \<^verbatim>\<open>ReadInfoForRef\<close> do to the outside, in order: the lines
  they log or print, and the two document loads, an HTTP GET and a read of a local file.
\<close>

datatype event =
    LogMakingCache
  | LogResolving "64 word" string
  | LogFetching string
  | LogFatal
  | PrintFileError
  | HttpGet string
  | FileRead string

fun is_load :: "event \<Rightarrow> bool" where
  "is_load (HttpGet u) = True"
| "is_load (FileRead f) = True"
| "is_load _ = False"

definition loads :: "event list \<Rightarrow> nat" where
  "loads evs = length (filter is_load evs)"

text \<open>\<^verbatim>\<open>http.Get\<close> followed by \<^verbatim>\<open>ioutil.ReadAll\<close> of the body: the GET fails, or the
  body cannot be read, or the bytes arrive (whatever the status of the response).\<close>

datatype http_result = GetError | BodyError | Body string

text \<open>
  The documents outside the program, and the library calls that read them. They are
  parameters of the model, fixed while the documents do not change:
  \<^item> \<open>url_Parse\<close>: \<^verbatim>\<open>url.Parse\<close>, giving the \<^verbatim>\<open>Scheme\<close> of the parsed URL, or \<open>None\<close>
    when it returns an error, and with it a nil \<^verbatim>\<open>*URL\<close>;
  \<^item> \<open>http_Get\<close>: the GET and the read of its body;
  \<^item> \<open>ioutil_ReadFile\<close>: the bytes of a local file, or \<open>None\<close> for the error;
  \<^item> \<open>yaml_Unmarshal\<close>: \<^verbatim>\<open>yaml.Unmarshal\<close> into a nil \<^verbatim>\<open>yaml.MapSlice\<close>, giving what
    the target holds after the call, and whether the call returned an error.
\<close>

text \<open>
  The outcome of \<^verbatim>\<open>yaml.Unmarshal(bytes, &info)\<close> on a nil \<^verbatim>\<open>info\<close>. With an error
  the target need not be nil still: the decoder notes a type error and goes on, so
  \<^verbatim>\<open>[{key: a, value: 1}, b]\<close> gives an error and leaves the item \<^verbatim>\<open>{a 1}\<close> in
  \<^verbatim>\<open>info\<close>, while bytes that are not YAML at all leave it nil.
\<close>

datatype unmarshalled =
    Decoded MapSlice
  | DecodeError MapSlice

record world =
  url_Parse :: "string \<Rightarrow> string option"
  http_Get :: "string \<Rightarrow> http_result"
  ioutil_ReadFile :: "string \<Rightarrow> string option"
  yaml_Unmarshal :: "string \<Rightarrow> unmarshalled"

text \<open>\<^verbatim>\<open>var info yaml.MapSlice; yaml.Unmarshal(bytes, &info); return info\<close>: the error
  of \<^verbatim>\<open>Unmarshal\<close> is dropped, and \<^verbatim>\<open>info\<close> is returned as the call left it.\<close>

definition unmarshal_info :: "world \<Rightarrow> string \<Rightarrow> iface" where
  "unmarshal_info w bytes =
     MapV (case yaml_Unmarshal w bytes of
             Decoded info \<Rightarrow> info
           | DecodeError info \<Rightarrow> info)"

text \<open>
  \<^verbatim>\<open>ReadFile\<close>, with the events it causes. \<^verbatim>\<open>fileurl, _ := url.Parse(filename)\<close> drops
  the error, so \<^verbatim>\<open>fileurl.Scheme\<close> dereferences nil when the parse failed.
  \<^verbatim>\<open>log.Fatal\<close> and \<^verbatim>\<open>os.Exit(1)\<close> end the process with status 1. When the body
  cannot be read the function falls through to \<^verbatim>\<open>return nil\<close>.
\<close>

definition ReadFile :: "world \<Rightarrow> string \<Rightarrow> event list \<times> (failure + iface)" where
  "ReadFile w filename =
     (case url_Parse w filename of
        None \<Rightarrow> ([], Inl PanicNilDeref)
      | Some scheme \<Rightarrow>
          if scheme \<noteq> [] then
            (case http_Get w filename of
               GetError \<Rightarrow> ([LogFetching filename, HttpGet filename, LogFatal], Inl (OsExit 1))
             | BodyError \<Rightarrow> ([LogFetching filename, HttpGet filename], Inr NilV)
             | Body bytes \<Rightarrow>
                 ([LogFetching filename, HttpGet filename], Inr (unmarshal_info w bytes)))
          else
            (case ioutil_ReadFile w filename of
               None \<Rightarrow> ([FileRead filename, PrintFileError], Inl (OsExit 1))
             | Some file \<Rightarrow> ([FileRead filename], Inr (unmarshal_info w file))))"

section \<open>Resolving a reference\<close>

text \<open>\<^verbatim>\<open>strings.Split(s, sep)\<close> for a separator of one character: the pieces between
  the separators, one more than there are separators.\<close>

fun strings_Split :: "string \<Rightarrow> char \<Rightarrow> string list" where
  "strings_Split [] sep = [[]]"
| "strings_Split (c # s) sep =
     (if c = sep then [] # strings_Split s sep
      else (case strings_Split s sep of
              [] \<Rightarrow> [[c]]
            | p # ps \<Rightarrow> (c # p) # ps))"

text \<open>
  \<^verbatim>\<open>filepath.Split\<close> where the separator is \<^verbatim>\<open>/\<close>: the library scans back from the end
  for the last separator and cuts after it. \<open>last_separator path i\<close> is that scan
  over the first \<open>i\<close> characters, giving the length of the directory part.
\<close>

fun last_separator :: "string \<Rightarrow> nat \<Rightarrow> nat" where
  "last_separator path 0 = 0"
| "last_separator path (Suc i) =
     (if path ! i = CHR ''/'' then Suc i else last_separator path i)"

definition filepath_Split :: "string \<Rightarrow> string \<times> string" where
  "filepath_Split path =
     (let i = last_separator path (length path) in (take i path, drop i path))"

text \<open>Lines 176 to 183: the name of the file to read, from the base file and the pieces
  of the reference around \<^verbatim>\<open>#\<close>. \<^verbatim>\<open>parts[0]\<close> always exists.\<close>

definition ref_filename :: "string \<Rightarrow> string list \<Rightarrow> string" where
  "ref_filename basefile parts =
     (let (basedir, _) = filepath_Split basefile in
      case parts of
        [] \<Rightarrow> basefile
      | p0 # _ \<Rightarrow> if p0 \<noteq> [] then basedir @ p0 else basefile)"

text \<open>
  One turn of the loop over the path, for a key after the first: when \<^verbatim>\<open>info\<close> holds a
  \<^verbatim>\<open>yaml.MapSlice\<close>, every section of it whose key equals the string \<^verbatim>\<open>key\<close> assigns
  its value to \<^verbatim>\<open>info\<close>; there is no \<^verbatim>\<open>break\<close>, so the last such section wins.
  Otherwise nothing happens.
\<close>

definition walk_step :: "iface \<Rightarrow> string \<Rightarrow> iface" where
  "walk_step info key =
     (case info of
        MapV m \<Rightarrow> foldl (\<lambda>i (k, v). if k = StrV key then v else i) info m
      | _ \<Rightarrow> info)"

text \<open>Lines 185 to 199: with a second piece, split it at \<^verbatim>\<open>/\<close> and walk every key but
  the first (\<^verbatim>\<open>if i > 0\<close>).\<close>

definition walk_fragment :: "iface \<Rightarrow> string list \<Rightarrow> iface" where
  "walk_fragment info parts =
     (case parts of
        p0 # p1 # _ \<Rightarrow> foldl walk_step info (drop 1 (strings_Split p1 CHR ''/''))
      | _ \<Rightarrow> info)"

text \<open>The package variables \<^verbatim>\<open>info_cache\<close> (a map, nil until the first call) and
  \<^verbatim>\<open>count\<close> (an \<^verbatim>\<open>int64\<close>), and the events so far.\<close>

record state =
  info_cache :: "(string \<rightharpoonup> iface) option"
  count :: "64 word"
  trace :: "event list"

definition cache_get :: "state \<Rightarrow> string \<Rightarrow> iface option" where
  "cache_get s ref = (case info_cache s of None \<Rightarrow> None | Some cache \<Rightarrow> cache ref)"

definition ReadInfoForRef ::
  "world \<Rightarrow> string \<Rightarrow> string \<Rightarrow> state \<Rightarrow> (failure + iface) \<times> state" where
  "ReadInfoForRef w basefile ref s =
     (let (cache, s1) =
            (case info_cache s of
               None \<Rightarrow>
                 (Map.empty,
                  s\<lparr>info_cache := Some Map.empty, trace := trace s @ [LogMakingCache]\<rparr>)
             | Some c \<Rightarrow> (c, s))
      in case cache ref of
           Some info \<Rightarrow> (Inr info, s1)
         | None \<Rightarrow>
             (let s2 = s1\<lparr>trace := trace s1 @ [LogResolving (count s1) ref],
                         count := count s1 + 1\<rparr>;
                  parts = strings_Split ref CHR ''#'';
                  filename = ref_filename basefile parts;
                  (events, r) = ReadFile w filename;
                  s3 = s2\<lparr>trace := trace s2 @ events\<rparr>
              in case r of
                   Inl f \<Rightarrow> (Inl f, s3)
                 | Inr info \<Rightarrow>
                     (let info' = walk_fragment info parts
                      in (Inr info', s3\<lparr>info_cache := Some (cache(ref \<mapsto> info'))\<rparr>))))"

text \<open>The state of a process that has not called \<^verbatim>\<open>ReadInfoForRef\<close> yet.\<close>

definition initial_state :: state where
  "initial_state = \<lparr>info_cache = None, count = 0, trace = []\<rparr>"

section \<open>Sample inputs\<close>

text \<open>
  Concrete inputs on which the theorems below are evaluated. \<open>sample_regexp\<close> answers
  as Go's \<^verbatim>\<open>regexp.Match\<close> does on the two patterns used: \<^verbatim>\<open>^x-\<close> matches the
  strings that start with \<^verbatim>\<open>x-\<close>, and \<^verbatim>\<open>(\<close> does not compile (missing closing
  parenthesis). No other pattern is given to it.
\<close>

definition sample_regexp :: regexp_Match where
  "sample_regexp pattern val =
     (if pattern = ''('' then None
      else if pattern = ''^x-'' then Some (take 2 val = ''x-'')
      else Some False)"

definition sample_map :: MapSlice where
  "sample_map = [(StrV ''name'', StrV ''pet''), (StrV ''x-tag'', IntV 1), (StrV ''id'', NilV)]"

text \<open>
  A small world: the file \<^verbatim>\<open>spec/root.yaml\<close> holds a mapping, \<^verbatim>\<open>spec/bad.yaml\<close> holds
  bytes that are not YAML, \<^verbatim>\<open>spec/part.yaml\<close> holds a sequence whose first entry
  decodes into an item of the \<^verbatim>\<open>MapSlice\<close> and whose second does not, no other file
  exists; the URL \<^verbatim>\<open>http://h/api.yaml\<close> answers with a body that cannot be read,
  \<^verbatim>\<open>http://h/bad.yaml\<close> with bytes that are not YAML, no other URL answers;
  \<^verbatim>\<open>url.Parse\<close> rejects \<^verbatim>\<open>100%.yaml\<close> (invalid URL escape), finds the scheme
  \<^verbatim>\<open>http\<close> in the two URLs and no scheme in the other names used.
\<close>

definition sample_doc :: MapSlice where
  "sample_doc =
     [(StrV ''definitions'',
       MapV [(StrV ''Widget'', MapV [(StrV ''size'', IntV 1)]),
             (StrV ''tags'', SeqV [StrV ''a''])])]"

definition sample_world :: world where
  "sample_world =
     \<lparr> url_Parse = (\<lambda>f. if f = ''100%.yaml'' then None
                        else if f = ''http://h/api.yaml'' \<or> f = ''http://h/bad.yaml''
                          then Some ''http''
                        else Some []),
       http_Get = (\<lambda>u. if u = ''http://h/api.yaml'' then BodyError
                       else if u = ''http://h/bad.yaml'' then Body ''{''
                       else GetError),
       ioutil_ReadFile = (\<lambda>f. if f = ''spec/root.yaml'' then Some ''definitions: ...''
                              else if f = ''spec/bad.yaml'' then Some ''{''
                              else if f = ''spec/part.yaml''
                                then Some ''[{key: a, value: 1}, b]''
                              else None),
       yaml_Unmarshal = (\<lambda>b. if b = ''definitions: ...'' then Decoded sample_doc
                             else if b = ''[{key: a, value: 1}, b]''
                               then DecodeError [(StrV ''a'', IntV 1)]
                             else DecodeError []) \<rparr>"

section \<open>Properties of the key-set helpers\<close>

lemma MapHasKey_string_keys:
  "string_keys m \<Longrightarrow> MapHasKey m key = Inr (key \<in> set (key_strings m))"
  by (induction m key rule: MapHasKey.induct) auto

lemma MapValueForKey_string_keys:
  "string_keys m \<Longrightarrow> \<exists>v. MapValueForKey m key = Inr v"
  by (induction m key rule: MapValueForKey.induct) auto

lemma SortedKeysForMap_loop_string_keys:
  "string_keys m \<Longrightarrow> SortedKeysForMap_loop m keys = Inr (keys @ key_strings m)"
  by (induction m keys rule: SortedKeysForMap_loop.induct) auto

lemma MissingKeysInMap_loop_returns:
  "MissingKeysInMap_loop m R acc = Inr r \<Longrightarrow>
     r = acc @ filter (\<lambda>k. MapHasKey m k = Inr False) R"
  by (induction m R acc rule: MissingKeysInMap_loop.induct)
     (auto split: sum.splits if_splits)

lemma MissingKeysInMap_loop_string_keys:
  "string_keys m \<Longrightarrow>
     MissingKeysInMap_loop m R acc = Inr (acc @ filter (\<lambda>k. MapHasKey m k = Inr False) R)"
  by (induction m R acc rule: MissingKeysInMap_loop.induct)
     (auto simp: MapHasKey_string_keys)

lemma allowedKey_found_iff: "allowedKey_found key allowedKeys \<longleftrightarrow> key \<in> set allowedKeys"
  by (induction allowedKeys) auto

lemma allowedPattern_found_returns:
  "allowedPattern_found rx key ps = Inr b \<Longrightarrow> b \<longleftrightarrow> (\<exists>p\<in>set ps. rx p key = Some True)"
  by (induction ps) (auto simp: PatternMatches_def split: option.splits sum.splits if_splits)

lemma allowedPattern_found_total:
  "\<forall>p\<in>set ps. rx p key \<noteq> None \<Longrightarrow> \<exists>b. allowedPattern_found rx key ps = Inr b"
  by (induction ps) (auto simp: PatternMatches_def split: option.splits sum.splits if_splits)

lemma InvalidKeysInMap_loop_returns:
  "InvalidKeysInMap_loop rx m allowed ps acc = Inr r \<Longrightarrow>
     string_keys m \<and>
     r = acc @ filter (\<lambda>k. \<not> (k \<in> set allowed \<or> (\<exists>p\<in>set ps. rx p k = Some True)))
               (key_strings m)"
  by (induction rx m allowed ps acc rule: InvalidKeysInMap_loop.induct)
     (auto simp: allowedKey_found_iff split: sum.splits if_splits
           dest: allowedPattern_found_returns)

lemma InvalidKeysInMap_loop_total:
  "string_keys m \<Longrightarrow> \<forall>p\<in>set ps. \<forall>k\<in>set (key_strings m). rx p k \<noteq> None \<Longrightarrow>
     \<exists>r. InvalidKeysInMap_loop rx m allowed ps acc = Inr r"
proof (induction rx m allowed ps acc rule: InvalidKeysInMap_loop.induct)
  case (2 rx key v m allowed ps acc)
  then have "\<exists>b. allowedPattern_found rx key ps = Inr b"
    by (intro allowedPattern_found_total) auto
  with 2 show ?case by (auto split: sum.splits)
qed auto

text \<open>
  Claim C6. \<^verbatim>\<open>MissingKeysInMap(M, R)\<close> is a sublist of \<open>R\<close> in the order of \<open>R\<close>, and
  a key of \<open>R\<close> is in it if and only if \<^verbatim>\<open>MapHasKey(M, k)\<close> is false. On a mapping
  whose keys are strings the function returns exactly the keys of \<open>R\<close> for which
  \<^verbatim>\<open>MapHasKey\<close> is false; and on any \<^verbatim>\<open>MapSlice\<close>, whenever it returns, its result is
  such a sublist.
\<close>

theorem MissingKeysInMap_sublist_iff:
  "(string_keys m \<longrightarrow>
      MissingKeysInMap m R = Inr (filter (\<lambda>k. MapHasKey m k = Inr False) R)) \<and>
   (\<forall>r. MissingKeysInMap m R = Inr r \<longrightarrow>
      subseq r R \<and> (\<forall>k\<in>set R. k \<in> set r \<longleftrightarrow> MapHasKey m k = Inr False))"
proof (intro conjI allI impI)
  assume "string_keys m"
  then show "MissingKeysInMap m R = Inr (filter (\<lambda>k. MapHasKey m k = Inr False) R)"
    by (simp add: MissingKeysInMap_def MissingKeysInMap_loop_string_keys)
next
  fix r assume "MissingKeysInMap m R = Inr r"
  then have r: "r = filter (\<lambda>k. MapHasKey m k = Inr False) R"
    using MissingKeysInMap_loop_returns [of m R "[]" r] by (simp add: MissingKeysInMap_def)
  show "subseq r R" unfolding r by (rule subseq_filter_left)
  show "\<forall>k\<in>set R. k \<in> set r \<longleftrightarrow> MapHasKey m k = Inr False" unfolding r by simp
qed

theorem MissingKeysInMap_sublist_iff_witness:
  "string_keys sample_map \<and>
   MissingKeysInMap sample_map [''id'', ''kind'', ''name'', ''size''] = Inr [''kind'', ''size''] \<and>
   subseq [''kind'', ''size''] [''id'', ''kind'', ''name'', ''size''] \<and>
   MapHasKey sample_map ''kind'' = Inr False \<and> MapHasKey sample_map ''id'' = Inr True"
  using MissingKeysInMap_sublist_iff [of sample_map "[''id'', ''kind'', ''name'', ''size'']"]
  by (simp add: sample_map_def)

lemma string_keys_map_fst: "string_keys m \<Longrightarrow> map StrV (key_strings m) = map fst m"
  by (induction m rule: string_keys.induct) auto

text \<open>
  Claim C7. \<^verbatim>\<open>InvalidKeysInMap(M, allowed, patterns)\<close> is empty if and only if every key
  of \<open>M\<close> equals an entry of \<open>allowed\<close> or matches a pattern of \<open>patterns\<close>, and its
  keys come in the order of the mapping. The function returns when the keys of \<open>M\<close> are
  strings and each pattern compiles; whenever it returns, the result is the list of
  keys of \<open>M\<close>, in order, that are neither allowed literally nor matched by a pattern,
  so it is empty exactly when there is no such key.
\<close>

theorem InvalidKeysInMap_empty_iff:
  "(string_keys m \<and> (\<forall>p\<in>set patterns. \<forall>k\<in>set (key_strings m). rx p k \<noteq> None) \<longrightarrow>
      (\<exists>r. InvalidKeysInMap rx m allowed patterns = Inr r)) \<and>
   (\<forall>r. InvalidKeysInMap rx m allowed patterns = Inr r \<longrightarrow>
      (r = [] \<longleftrightarrow>
         (\<forall>k\<in>set (key_strings m). k \<in> set allowed \<or> (\<exists>p\<in>set patterns. rx p k = Some True))) \<and>
      r = filter (\<lambda>k. \<not> (k \<in> set allowed \<or> (\<exists>p\<in>set patterns. rx p k = Some True)))
            (key_strings m) \<and>
      map StrV (key_strings m) = map fst m)"
proof (intro conjI allI impI)
  assume "string_keys m \<and> (\<forall>p\<in>set patterns. \<forall>k\<in>set (key_strings m). rx p k \<noteq> None)"
  then show "\<exists>r. InvalidKeysInMap rx m allowed patterns = Inr r"
    unfolding InvalidKeysInMap_def by (intro InvalidKeysInMap_loop_total) auto
next
  fix r assume a: "InvalidKeysInMap rx m allowed patterns = Inr r"
  from InvalidKeysInMap_loop_returns [OF a [unfolded InvalidKeysInMap_def]]
  have sk: "string_keys m"
    and r: "r = filter (\<lambda>k. \<not> (k \<in> set allowed \<or> (\<exists>p\<in>set patterns. rx p k = Some True)))
                  (key_strings m)"
    by simp_all
  show "r = filter (\<lambda>k. \<not> (k \<in> set allowed \<or> (\<exists>p\<in>set patterns. rx p k = Some True)))
              (key_strings m)"
    by (rule r)
  show "map StrV (key_strings m) = map fst m"
    using sk by (rule string_keys_map_fst)
  show "r = [] \<longleftrightarrow>
         (\<forall>k\<in>set (key_strings m). k \<in> set allowed \<or> (\<exists>p\<in>set patterns. rx p k = Some True))"
    unfolding r by (simp add: filter_empty_conv)
qed

theorem InvalidKeysInMap_empty_iff_witness:
  "string_keys sample_map \<and>
   InvalidKeysInMap sample_regexp sample_map [''name''] [''^x-''] = Inr [''id''] \<and>
   InvalidKeysInMap sample_regexp sample_map [''name'', ''id''] [''^x-''] = Inr [] \<and>
   key_strings sample_map = [''name'', ''x-tag'', ''id''] \<and>
   sample_regexp ''^x-'' ''x-tag'' = Some True \<and>
   sample_regexp ''^x-'' ''id'' = Some False"
  using InvalidKeysInMap_empty_iff [of sample_map "[''^x-'']" sample_regexp "[''name'']"]
    InvalidKeysInMap_empty_iff [of sample_map "[''^x-'']" sample_regexp "[''name'', ''id'']"]
  by (simp add: sample_map_def sample_regexp_def InvalidKeysInMap_def PatternMatches_def)

text \<open>
  Claim C8 says that the key-set helpers return on every input and that
  \<^verbatim>\<open>InvalidKeysInMap\<close> never fails whatever the patterns are. It fails on the pattern
  \<^verbatim>\<open>(\<close>: \<^verbatim>\<open>PatternMatches\<close> panics with the error of \<^verbatim>\<open>regexp.Match\<close> when the key
  \<^verbatim>\<open>x-tag\<close>, which is not an allowed name, is tested against it.
\<close>

theorem helpers_total_counterexample:
  "InvalidKeysInMap sample_regexp sample_map [''name''] [''(''] = Inl PanicRegexp"
  by (simp add: sample_map_def sample_regexp_def InvalidKeysInMap_def PatternMatches_def)

text \<open>
  Claim C8, amended. On a mapping whose keys are all strings, \<^verbatim>\<open>SortedKeysForMap\<close>,
  \<^verbatim>\<open>MapHasKey\<close>, \<^verbatim>\<open>MapValueForKey\<close> and \<^verbatim>\<open>MissingKeysInMap\<close> return a result, and
  \<^verbatim>\<open>InvalidKeysInMap\<close> returns one when every pattern compiles. A node that is not a
  mapping cannot be passed to them: \<^verbatim>\<open>UnpackMap\<close> gives the empty \<^verbatim>\<open>MapSlice\<close> and
  \<open>False\<close> for it, and on the empty \<^verbatim>\<open>MapSlice\<close> the helpers give no keys, \<open>False\<close>,
  nil, every required key as missing, and no invalid key, whatever the patterns are.
\<close>

theorem helpers_total_on_mappings:
  "(string_keys m \<longrightarrow>
      SortedKeysForMap m = Inr (sort (key_strings m)) \<and>
      MapHasKey m key = Inr (key \<in> set (key_strings m)) \<and>
      (\<exists>v. MapValueForKey m key = Inr v) \<and>
      (\<exists>r. MissingKeysInMap m R = Inr r) \<and>
      ((\<forall>p\<in>set patterns. \<forall>k\<in>set (key_strings m). rx p k \<noteq> None) \<longrightarrow>
         (\<exists>r. InvalidKeysInMap rx m allowed patterns = Inr r))) \<and>
   ((\<forall>ms. n \<noteq> MapV ms) \<longrightarrow> UnpackMap n = ([], False)) \<and>
   SortedKeysForMap [] = Inr [] \<and>
   MapHasKey [] key = Inr False \<and>
   MapValueForKey [] key = Inr NilV \<and>
   MissingKeysInMap [] R = Inr R \<and>
   InvalidKeysInMap rx [] allowed patterns = Inr []"
proof -
  have unpack: "(\<forall>ms. n \<noteq> MapV ms) \<longrightarrow> UnpackMap n = ([], False)"
    by (cases n) simp_all
  have missing: "MissingKeysInMap [] R = Inr R"
    using MissingKeysInMap_loop_string_keys [of "[]" R "[]"] by (simp add: MissingKeysInMap_def)
  have str: "string_keys m \<longrightarrow>
      SortedKeysForMap m = Inr (sort (key_strings m)) \<and>
      MapHasKey m key = Inr (key \<in> set (key_strings m)) \<and>
      (\<exists>v. MapValueForKey m key = Inr v) \<and>
      (\<exists>r. MissingKeysInMap m R = Inr r) \<and>
      ((\<forall>p\<in>set patterns. \<forall>k\<in>set (key_strings m). rx p k \<noteq> None) \<longrightarrow>
         (\<exists>r. InvalidKeysInMap rx m allowed patterns = Inr r))"
  proof (intro impI conjI)
    assume sk: "string_keys m"
    show "SortedKeysForMap m = Inr (sort (key_strings m))"
      by (simp add: SortedKeysForMap_def SortedKeysForMap_loop_string_keys [OF sk])
    show "MapHasKey m key = Inr (key \<in> set (key_strings m))"
      by (rule MapHasKey_string_keys [OF sk])
    show "\<exists>v. MapValueForKey m key = Inr v"
      by (rule MapValueForKey_string_keys [OF sk])
    show "\<exists>r. MissingKeysInMap m R = Inr r"
      by (simp add: MissingKeysInMap_def MissingKeysInMap_loop_string_keys [OF sk])
    assume "\<forall>p\<in>set patterns. \<forall>k\<in>set (key_strings m). rx p k \<noteq> None"
    with sk show "\<exists>r. InvalidKeysInMap rx m allowed patterns = Inr r"
      unfolding InvalidKeysInMap_def by (intro InvalidKeysInMap_loop_total) auto
  qed
  show ?thesis
    using unpack missing str by (simp add: SortedKeysForMap_def InvalidKeysInMap_def)
qed

theorem helpers_total_on_mappings_witness:
  "string_keys sample_map \<and>
   SortedKeysForMap sample_map = Inr [''id'', ''name'', ''x-tag''] \<and>
   MapHasKey sample_map ''id'' = Inr True \<and>
   MapValueForKey sample_map ''x-tag'' = Inr (IntV 1) \<and>
   MissingKeysInMap sample_map [''kind''] = Inr [''kind''] \<and>
   InvalidKeysInMap sample_regexp sample_map [] [''^x-''] = Inr [''name'', ''id''] \<and>
   UnpackMap (SeqV []) = ([], False)"
  using helpers_total_on_mappings [where m = sample_map and key = "''id''" and R = "[''kind'']"
      and patterns = "[''^x-'']" and rx = sample_regexp and n = "SeqV []" and allowed = "[]"]
  by (simp add: sample_map_def sample_regexp_def InvalidKeysInMap_def PatternMatches_def
      MissingKeysInMap_def)

section \<open>Properties of loading and resolving\<close>

lemma strings_Split_nonempty: "strings_Split s sep \<noteq> []"
  by (induction s) (auto split: list.splits)

lemma hd_strings_Split: "hd (strings_Split s sep) = takeWhile (\<lambda>c. c \<noteq> sep) s"
  using strings_Split_nonempty [of _ sep]
  by (induction s) (auto split: list.splits)

lemma last_separator_le: "last_separator path i \<le> i"
  by (induction i) auto

lemma last_separator_none_after:
  "last_separator path i \<le> j \<Longrightarrow> j < i \<Longrightarrow> path ! j \<noteq> CHR ''/''"
  by (induction i) (auto split: if_splits simp: less_Suc_eq)

lemma last_separator_at:
  "0 < last_separator path i \<Longrightarrow> path ! (last_separator path i - 1) = CHR ''/''"
  by (induction i) (auto split: if_splits)

lemma filepath_Split_parts:
  assumes "filepath_Split path = (dir, file)"
  shows "path = dir @ file" and "CHR ''/'' \<notin> set file" and "dir = [] \<or> last dir = CHR ''/''"
proof -
  define i where "i = last_separator path (length path)"
  have dir: "dir = take i path" and fl: "file = drop i path"
    using assms by (simp_all add: filepath_Split_def i_def Let_def)
  have le: "i \<le> length path" unfolding i_def by (rule last_separator_le)
  show "path = dir @ file" by (simp add: dir fl)
  show "CHR ''/'' \<notin> set file"
  proof
    assume "CHR ''/'' \<in> set file"
    then obtain k where k: "k < length file" "file ! k = CHR ''/''"
      by (auto simp: in_set_conv_nth)
    then have "path ! (i + k) = CHR ''/''" "i + k < length path"
      using le by (auto simp: fl)
    moreover have "path ! (i + k) \<noteq> CHR ''/''"
      using last_separator_none_after [of path "length path" "i + k"] \<open>i + k < length path\<close>
      by (simp add: i_def)
    ultimately show False by simp
  qed
  show "dir = [] \<or> last dir = CHR ''/''"
  proof (cases "i = 0")
    case True then show ?thesis by (simp add: dir)
  next
    case False
    then have "path ! (i - 1) = CHR ''/''"
      using last_separator_at [of path "length path"] by (simp add: i_def)
    moreover have "last dir = path ! (i - 1)"
    proof -
      have "take i path \<noteq> []" using False le by auto
      then have "last (take i path) = take i path ! (length (take i path) - 1)"
        by (rule last_conv_nth)
      also have "\<dots> = path ! (i - 1)" using False le by (simp add: min_def)
      finally show ?thesis by (simp add: dir)
    qed
    ultimately show ?thesis by simp
  qed
qed

lemma ref_filename_eq:
  "ref_filename basefile (strings_Split ref CHR ''#'') =
    (if takeWhile (\<lambda>c. c \<noteq> CHR ''#'') ref = [] then basefile
     else fst (filepath_Split basefile) @ takeWhile (\<lambda>c. c \<noteq> CHR ''#'') ref)"
  using strings_Split_nonempty [of ref "CHR ''#''"] hd_strings_Split [of ref "CHR ''#''"]
  by (auto simp: ref_filename_def split: list.splits prod.splits)

lemma loads_ReadFile: "loads (fst (ReadFile w f)) \<le> 1"
  by (simp add: ReadFile_def loads_def split: option.splits http_result.splits)

lemma ReadInfoForRef_hit:
  "cache_get s ref = Some v \<Longrightarrow> ReadInfoForRef w b ref s = (Inr v, s)"
  by (auto simp: ReadInfoForRef_def cache_get_def split: option.splits)

lemma ReadInfoForRef_miss:
  assumes "cache_get s ref = None"
    and "ReadFile w (ref_filename b (strings_Split ref CHR ''#'')) = (evs, r)"
  shows "fst (ReadInfoForRef w b ref s) =
           (case r of Inl f \<Rightarrow> Inl f
            | Inr info \<Rightarrow> Inr (walk_fragment info (strings_Split ref CHR ''#'')))"
    and "trace (snd (ReadInfoForRef w b ref s)) =
           trace s @ (if info_cache s = None then [LogMakingCache] else [])
             @ [LogResolving (count s) ref] @ evs"
    and "count (snd (ReadInfoForRef w b ref s)) = count s + 1"
    and "cache_get (snd (ReadInfoForRef w b ref s)) k =
           (case r of Inl f \<Rightarrow> cache_get s k
            | Inr info \<Rightarrow>
                if k = ref then Some (walk_fragment info (strings_Split ref CHR ''#''))
                else cache_get s k)"
    and "info_cache (snd (ReadInfoForRef w b ref s)) \<noteq> None"
  using assms
  by (auto simp: ReadInfoForRef_def cache_get_def Let_def split: option.splits sum.splits)

lemma foldl_last_match:
  "foldl (\<lambda>i (k, v). if k = key then v else i) info m =
     (case map_of (rev m) key of Some v \<Rightarrow> v | None \<Rightarrow> info)"
  by (induction m rule: rev_induct) (auto split: option.splits)

lemma walk_step_eq:
  "walk_step info key =
     (case info of
        MapV m \<Rightarrow> (case map_of (rev m) (StrV key) of Some v \<Rightarrow> v | None \<Rightarrow> info)
      | _ \<Rightarrow> info)"
  by (cases info) (auto simp: walk_step_def foldl_last_match split: option.splits)

lemma walk_step_absent:
  "StrV key \<notin> fst ` set m \<Longrightarrow> walk_step (MapV m) key = MapV m"
proof -
  assume "StrV key \<notin> fst ` set m"
  then have "map_of (rev m) (StrV key) = None"
    by (simp add: map_of_eq_None_iff)
  then show ?thesis by (simp add: walk_step_eq)
qed

lemma walk_step_not_map:
  "\<forall>m. info \<noteq> MapV m \<Longrightarrow> walk_step info key = info"
  by (cases info) (simp_all add: walk_step_def)

lemma foldl_walk_step_NilV: "foldl walk_step NilV keys = NilV"
  by (induction keys) (simp_all add: walk_step_def)

lemma walk_fragment_NilV: "walk_fragment NilV parts = NilV"
  by (simp add: walk_fragment_def foldl_walk_step_NilV split: list.splits)

text \<open>
  Claim C1 says that a reference whose fragment path cannot be walked to the end fails
  with a \<^verbatim>\<open>ReferenceError\<close> naming the failing segment. \<^verbatim>\<open>ReadInfoForRef\<close> has no
  such error: with \<^verbatim>\<open>Gadget\<close> absent under \<^verbatim>\<open>definitions\<close> it returns the node of
  \<^verbatim>\<open>definitions\<close>, and with a segment left at the sequence \<^verbatim>\<open>tags\<close> it returns
  that sequence.
\<close>

theorem ReadInfoForRef_no_ReferenceError_counterexample:
  "fst (ReadInfoForRef sample_world ''spec/root.yaml'' ''#/definitions/Gadget'' initial_state) =
     Inr (MapV [(StrV ''Widget'', MapV [(StrV ''size'', IntV 1)]),
                (StrV ''tags'', SeqV [StrV ''a''])]) \<and>
   fst (ReadInfoForRef sample_world ''spec/root.yaml'' ''#/definitions/tags/0'' initial_state) =
     Inr (SeqV [StrV ''a''])"
  by (simp add: ReadInfoForRef_def initial_state_def sample_world_def ReadFile_def
      ref_filename_def filepath_Split_def unmarshal_info_def sample_doc_def
      walk_fragment_def walk_step_def Let_def)

text \<open>
  Claim C1, amended. Once the document is loaded, \<^verbatim>\<open>ReadInfoForRef\<close> returns the node
  its walk ends on and reports no error: the walk takes the segments after the first
  in turn; a segment met at a node that is not a mapping, or naming a key the mapping
  does not have, leaves the current node as it is, and the walk goes on with the next
  segment; a segment naming a key of the mapping moves to the value of the last entry
  with that key.
\<close>

theorem ReadInfoForRef_skips_failing_segments:
  "(cache_get s ref = None \<and>
    ReadFile w (ref_filename basefile (strings_Split ref CHR ''#'')) = (evs, Inr doc) \<longrightarrow>
      fst (ReadInfoForRef w basefile ref s) =
        Inr (walk_fragment doc (strings_Split ref CHR ''#''))) \<and>
   walk_fragment doc (p0 # p1 # ps) = foldl walk_step doc (drop 1 (strings_Split p1 CHR ''/'')) \<and>
   ((\<forall>m. info \<noteq> MapV m) \<longrightarrow> walk_step info key = info) \<and>
   (StrV key \<notin> fst ` set m \<longrightarrow> walk_step (MapV m) key = MapV m) \<and>
   (\<forall>v. map_of (rev m) (StrV key) = Some v \<longrightarrow> walk_step (MapV m) key = v)"
proof (intro conjI impI allI)
  assume "cache_get s ref = None \<and>
    ReadFile w (ref_filename basefile (strings_Split ref CHR ''#'')) = (evs, Inr doc)"
  then show "fst (ReadInfoForRef w basefile ref s) =
      Inr (walk_fragment doc (strings_Split ref CHR ''#''))"
    using ReadInfoForRef_miss(1) [of s ref w basefile evs "Inr doc"] by simp
next
  show "walk_fragment doc (p0 # p1 # ps) =
      foldl walk_step doc (drop 1 (strings_Split p1 CHR ''/''))"
    by (simp add: walk_fragment_def)
next
  assume "\<forall>m. info \<noteq> MapV m"
  then show "walk_step info key = info" by (rule walk_step_not_map)
next
  assume "StrV key \<notin> fst ` set m"
  then show "walk_step (MapV m) key = MapV m" by (rule walk_step_absent)
next
  fix v assume "map_of (rev m) (StrV key) = Some v"
  then show "walk_step (MapV m) key = v" by (simp add: walk_step_eq)
qed

theorem ReadInfoForRef_skips_failing_segments_witness:
  "cache_get initial_state ''#/definitions/Gadget/size'' = None \<and>
   ReadFile sample_world (ref_filename ''spec/root.yaml''
       (strings_Split ''#/definitions/Gadget/size'' CHR ''#'')) =
     ([FileRead ''spec/root.yaml''], Inr (MapV sample_doc)) \<and>
   fst (ReadInfoForRef sample_world ''spec/root.yaml'' ''#/definitions/Gadget/size'' initial_state) =
     Inr (walk_fragment (MapV sample_doc) (strings_Split ''#/definitions/Gadget/size'' CHR ''#'')) \<and>
   walk_fragment (MapV sample_doc) (strings_Split ''#/definitions/Gadget/size'' CHR ''#'') =
     MapV [(StrV ''Widget'', MapV [(StrV ''size'', IntV 1)]), (StrV ''tags'', SeqV [StrV ''a''])] \<and>
   walk_step (SeqV [StrV ''a'']) ''0'' = SeqV [StrV ''a''] \<and>
   StrV ''Gadget'' \<notin> fst ` set sample_doc \<and>
   walk_step (MapV sample_doc) ''Gadget'' = MapV sample_doc \<and>
   map_of (rev sample_doc) (StrV ''definitions'') =
     Some (MapV [(StrV ''Widget'', MapV [(StrV ''size'', IntV 1)]), (StrV ''tags'', SeqV [StrV ''a''])])"
  using ReadInfoForRef_skips_failing_segments
    [where s = initial_state and ref = "''#/definitions/Gadget/size''" and w = sample_world
       and basefile = "''spec/root.yaml''" and evs = "[FileRead ''spec/root.yaml'']"
       and doc = "MapV sample_doc" and info = "SeqV [StrV ''a'']" and key = "''Gadget''"
       and m = sample_doc]
  by (simp add: initial_state_def cache_get_def sample_world_def ReadFile_def
      ref_filename_def filepath_Split_def unmarshal_info_def sample_doc_def
      walk_fragment_def walk_step_def Let_def)

text \<open>
  Claim C2. Calling \<^verbatim>\<open>ReadInfoForRef\<close> twice with the same reference, the documents
  unchanged: a call performs at most one document load; when the first call returns a
  value, the second (whatever its base file) returns the same value from the cache and
  leaves the state as it is, the events included, so it loads, logs and prints nothing,
  and both calls together perform at most one load.
\<close>

theorem ReadInfoForRef_twice:
  "(\<exists>evs. trace (snd (ReadInfoForRef w basefile ref s)) = trace s @ evs \<and> loads evs \<le> 1) \<and>
   (\<forall>v s1. ReadInfoForRef w basefile ref s = (Inr v, s1) \<longrightarrow>
      ReadInfoForRef w basefile' ref s1 = (Inr v, s1) \<and>
      loads (trace (snd (ReadInfoForRef w basefile' ref s1))) \<le> loads (trace s) + 1)"
proof (cases "cache_get s ref")
  case (Some u)
  then have hit: "ReadInfoForRef w basefile ref s = (Inr u, s)"
    by (rule ReadInfoForRef_hit)
  have "ReadInfoForRef w basefile' ref s = (Inr u, s)"
    using Some by (rule ReadInfoForRef_hit)
  with hit show ?thesis by (simp add: loads_def)
next
  case None
  obtain evs r where rf: "ReadFile w (ref_filename basefile (strings_Split ref CHR ''#'')) = (evs, r)"
    by (cases "ReadFile w (ref_filename basefile (strings_Split ref CHR ''#''))")
  note miss = ReadInfoForRef_miss [OF None rf]
  have le: "loads evs \<le> 1"
    using loads_ReadFile [of w "ref_filename basefile (strings_Split ref CHR ''#'')"] rf by simp
  have tr: "\<exists>evs. trace (snd (ReadInfoForRef w basefile ref s)) = trace s @ evs \<and> loads evs \<le> 1"
    using miss(2) le by (simp add: loads_def)
  have "ReadInfoForRef w basefile' ref s1 = (Inr v, s1) \<and>
        loads (trace (snd (ReadInfoForRef w basefile' ref s1))) \<le> loads (trace s) + 1"
    if ret: "ReadInfoForRef w basefile ref s = (Inr v, s1)" for v s1
  proof -
    have s1: "s1 = snd (ReadInfoForRef w basefile ref s)" using ret by simp
    have fv: "fst (ReadInfoForRef w basefile ref s) = Inr v" using ret by simp
    have "cache_get s1 ref = Some v"
      using miss(1) miss(4) [of ref] fv unfolding s1 by (cases r) auto
    then have again: "ReadInfoForRef w basefile' ref s1 = (Inr v, s1)"
      by (rule ReadInfoForRef_hit)
    moreover have "loads (trace s1) \<le> loads (trace s) + 1"
      using miss(2) le unfolding s1 by (simp add: loads_def)
    ultimately show ?thesis by simp
  qed
  with tr show ?thesis by blast
qed

theorem ReadInfoForRef_twice_witness:
  "fst (ReadInfoForRef sample_world ''spec/root.yaml'' ''#/definitions/Widget'' initial_state) =
     Inr (MapV [(StrV ''size'', IntV 1)]) \<and>
   trace (snd (ReadInfoForRef sample_world ''spec/root.yaml'' ''#/definitions/Widget'' initial_state)) =
     [LogMakingCache, LogResolving 0 ''#/definitions/Widget'', FileRead ''spec/root.yaml''] \<and>
   ReadInfoForRef sample_world ''elsewhere/x.yaml'' ''#/definitions/Widget''
       (snd (ReadInfoForRef sample_world ''spec/root.yaml'' ''#/definitions/Widget'' initial_state)) =
     (Inr (MapV [(StrV ''size'', IntV 1)]),
      snd (ReadInfoForRef sample_world ''spec/root.yaml'' ''#/definitions/Widget'' initial_state))"
proof -
  have first: "fst (ReadInfoForRef sample_world ''spec/root.yaml'' ''#/definitions/Widget'' initial_state) =
      Inr (MapV [(StrV ''size'', IntV 1)])"
    by (simp add: ReadInfoForRef_def initial_state_def sample_world_def ReadFile_def
        ref_filename_def filepath_Split_def unmarshal_info_def sample_doc_def
        walk_fragment_def walk_step_def Let_def)
  have tr: "trace (snd (ReadInfoForRef sample_world ''spec/root.yaml'' ''#/definitions/Widget'' initial_state)) =
     [LogMakingCache, LogResolving 0 ''#/definitions/Widget'', FileRead ''spec/root.yaml'']"
    by (simp add: ReadInfoForRef_def initial_state_def sample_world_def ReadFile_def
        ref_filename_def filepath_Split_def unmarshal_info_def sample_doc_def
        walk_fragment_def walk_step_def Let_def)
  have eq: "ReadInfoForRef sample_world ''spec/root.yaml'' ''#/definitions/Widget'' initial_state =
      (Inr (MapV [(StrV ''size'', IntV 1)]),
       snd (ReadInfoForRef sample_world ''spec/root.yaml'' ''#/definitions/Widget'' initial_state))"
    using first by (simp add: prod_eq_iff)
  from ReadInfoForRef_twice [of sample_world "''spec/root.yaml''" "''#/definitions/Widget''"
      initial_state "''elsewhere/x.yaml''"] eq
  have "ReadInfoForRef sample_world ''elsewhere/x.yaml'' ''#/definitions/Widget''
       (snd (ReadInfoForRef sample_world ''spec/root.yaml'' ''#/definitions/Widget'' initial_state)) =
     (Inr (MapV [(StrV ''size'', IntV 1)]),
      snd (ReadInfoForRef sample_world ''spec/root.yaml'' ''#/definitions/Widget'' initial_state))"
    by blast
  with first tr show ?thesis by simp
qed

text \<open>
  Claim C3 says that a local file that cannot be read gives a typed \<^verbatim>\<open>IOError\<close> to the
  caller and never ends the process. \<^verbatim>\<open>ReadFile\<close> prints the error and calls
  \<^verbatim>\<open>os.Exit(1)\<close>: for the missing file \<^verbatim>\<open>spec/none.yaml\<close> the load, and the call of
  \<^verbatim>\<open>ReadInfoForRef\<close> that asked for it, end the process.
\<close>

theorem ReadFile_missing_file_counterexample:
  "ReadFile sample_world ''spec/none.yaml'' =
     ([FileRead ''spec/none.yaml'', PrintFileError], Inl (OsExit 1)) \<and>
   fst (ReadInfoForRef sample_world ''spec/root.yaml'' ''none.yaml#/a'' initial_state) =
     Inl (OsExit 1)"
  by (simp add: ReadInfoForRef_def initial_state_def sample_world_def ReadFile_def
      ref_filename_def filepath_Split_def Let_def)

text \<open>
  Claim C3, amended. For a locator in which \<^verbatim>\<open>url.Parse\<close> finds no scheme and whose
  local file cannot be read, \<^verbatim>\<open>ReadFile\<close> reads once, prints the file error and ends
  the process with status 1; a call of \<^verbatim>\<open>ReadInfoForRef\<close> that loads this file ends
  the same way, returns nothing to its caller and caches nothing for the reference.
\<close>

theorem ReadFile_missing_file_exits:
  "url_Parse w filename = Some [] \<and> ioutil_ReadFile w filename = None \<longrightarrow>
     ReadFile w filename = ([FileRead filename, PrintFileError], Inl (OsExit 1)) \<and>
     (\<forall>basefile ref s.
        cache_get s ref = None \<and>
        ref_filename basefile (strings_Split ref CHR ''#'') = filename \<longrightarrow>
          fst (ReadInfoForRef w basefile ref s) = Inl (OsExit 1) \<and>
          cache_get (snd (ReadInfoForRef w basefile ref s)) ref = None)"
proof (intro impI conjI allI)
  assume a: "url_Parse w filename = Some [] \<and> ioutil_ReadFile w filename = None"
  then show rf: "ReadFile w filename = ([FileRead filename, PrintFileError], Inl (OsExit 1))"
    by (simp add: ReadFile_def)
  fix basefile ref s
  assume b: "cache_get s ref = None \<and>
        ref_filename basefile (strings_Split ref CHR ''#'') = filename"
  then have miss: "cache_get s ref = None"
    and rf': "ReadFile w (ref_filename basefile (strings_Split ref CHR ''#'')) =
        ([FileRead filename, PrintFileError], Inl (OsExit 1))"
    using rf by simp_all
  show "fst (ReadInfoForRef w basefile ref s) = Inl (OsExit 1)"
    using ReadInfoForRef_miss(1) [OF miss rf'] by simp
  show "cache_get (snd (ReadInfoForRef w basefile ref s)) ref = None"
    using ReadInfoForRef_miss(4) [OF miss rf', of ref] miss by simp
qed

theorem ReadFile_missing_file_exits_witness:
  "url_Parse sample_world ''spec/none.yaml'' = Some [] \<and>
   ioutil_ReadFile sample_world ''spec/none.yaml'' = None \<and>
   ReadFile sample_world ''spec/none.yaml'' =
     ([FileRead ''spec/none.yaml'', PrintFileError], Inl (OsExit 1)) \<and>
   cache_get initial_state ''none.yaml#/a'' = None \<and>
   ref_filename ''spec/root.yaml'' (strings_Split ''none.yaml#/a'' CHR ''#'') = ''spec/none.yaml'' \<and>
   fst (ReadInfoForRef sample_world ''spec/root.yaml'' ''none.yaml#/a'' initial_state) =
     Inl (OsExit 1) \<and>
   cache_get (snd (ReadInfoForRef sample_world ''spec/root.yaml'' ''none.yaml#/a'' initial_state))
     ''none.yaml#/a'' = None"
proof -
  have h: "url_Parse sample_world ''spec/none.yaml'' = Some [] \<and>
      ioutil_ReadFile sample_world ''spec/none.yaml'' = None"
    by (simp add: sample_world_def)
  have c: "cache_get initial_state ''none.yaml#/a'' = None \<and>
      ref_filename ''spec/root.yaml'' (strings_Split ''none.yaml#/a'' CHR ''#'') = ''spec/none.yaml''"
    by (simp add: cache_get_def initial_state_def ref_filename_def filepath_Split_def)
  from ReadFile_missing_file_exits [of sample_world "''spec/none.yaml''"] h c
  show ?thesis by blast
qed

text \<open>
  Claim C4 says that bytes that do not parse make \<^verbatim>\<open>ReadFile\<close> fail with a
  \<^verbatim>\<open>ParseError\<close> and never give a zero-value tree. For \<^verbatim>\<open>spec/bad.yaml\<close>, whose
  bytes \<^verbatim>\<open>yaml.Unmarshal\<close> rejects, \<^verbatim>\<open>ReadFile\<close> returns the empty \<^verbatim>\<open>MapSlice\<close>, and
  so does \<^verbatim>\<open>ReadInfoForRef\<close>.
\<close>

theorem ReadFile_parse_error_counterexample:
  "ReadFile sample_world ''spec/bad.yaml'' = ([FileRead ''spec/bad.yaml''], Inr (MapV [])) \<and>
   fst (ReadInfoForRef sample_world ''spec/root.yaml'' ''bad.yaml'' initial_state) = Inr (MapV [])"
  by (simp add: ReadInfoForRef_def initial_state_def sample_world_def ReadFile_def
      ref_filename_def filepath_Split_def unmarshal_info_def walk_fragment_def Let_def)

text \<open>
  Claim C4, amended. When the bytes read, from a local file or from the body of the
  HTTP response, do not parse, \<^verbatim>\<open>ReadFile\<close> drops the error of \<^verbatim>\<open>yaml.Unmarshal\<close> and
  returns the \<^verbatim>\<open>MapSlice\<close> as the failed call left it: the zero-value (empty)
  \<^verbatim>\<open>MapSlice\<close> when nothing was decoded, the items decoded otherwise. It is the value
  a call without error that decodes the same items returns, so the caller cannot tell
  that the bytes did not parse.
\<close>

theorem ReadFile_parse_error_dropped:
  "yaml_Unmarshal w bytes = DecodeError info \<longrightarrow>
     (url_Parse w filename = Some [] \<and> ioutil_ReadFile w filename = Some bytes \<longrightarrow>
        ReadFile w filename = ([FileRead filename], Inr (MapV info))) \<and>
     (\<forall>scheme. url_Parse w filename = Some scheme \<and> scheme \<noteq> [] \<and>
               http_Get w filename = Body bytes \<longrightarrow>
        ReadFile w filename = ([LogFetching filename, HttpGet filename], Inr (MapV info))) \<and>
     (info = [] \<longrightarrow> unmarshal_info w bytes = MapV []) \<and>
     ReadFile (w\<lparr>yaml_Unmarshal := (yaml_Unmarshal w)(bytes := Decoded info)\<rparr>) filename =
       ReadFile w filename"
proof (intro impI)
  assume err: "yaml_Unmarshal w bytes = DecodeError info"
  have same: "unmarshal_info (w\<lparr>yaml_Unmarshal := (yaml_Unmarshal w)(bytes := Decoded info)\<rparr>) b =
      unmarshal_info w b" for b
    using err by (simp add: unmarshal_info_def)
  have ok: "ReadFile (w\<lparr>yaml_Unmarshal := (yaml_Unmarshal w)(bytes := Decoded info)\<rparr>) filename =
      ReadFile w filename"
    by (simp add: ReadFile_def same split: option.splits http_result.splits)
  from err ok show
    "(url_Parse w filename = Some [] \<and> ioutil_ReadFile w filename = Some bytes \<longrightarrow>
        ReadFile w filename = ([FileRead filename], Inr (MapV info))) \<and>
     (\<forall>scheme. url_Parse w filename = Some scheme \<and> scheme \<noteq> [] \<and>
               http_Get w filename = Body bytes \<longrightarrow>
        ReadFile w filename = ([LogFetching filename, HttpGet filename], Inr (MapV info))) \<and>
     (info = [] \<longrightarrow> unmarshal_info w bytes = MapV []) \<and>
     ReadFile (w\<lparr>yaml_Unmarshal := (yaml_Unmarshal w)(bytes := Decoded info)\<rparr>) filename =
       ReadFile w filename"
    by (simp add: ReadFile_def unmarshal_info_def)
qed

theorem ReadFile_parse_error_dropped_witness:
  "yaml_Unmarshal sample_world ''{'' = DecodeError [] \<and>
   url_Parse sample_world ''spec/bad.yaml'' = Some [] \<and>
   ioutil_ReadFile sample_world ''spec/bad.yaml'' = Some ''{'' \<and>
   ReadFile sample_world ''spec/bad.yaml'' = ([FileRead ''spec/bad.yaml''], Inr (MapV [])) \<and>
   url_Parse sample_world ''http://h/bad.yaml'' = Some ''http'' \<and>
   http_Get sample_world ''http://h/bad.yaml'' = Body ''{'' \<and>
   ReadFile sample_world ''http://h/bad.yaml'' =
     ([LogFetching ''http://h/bad.yaml'', HttpGet ''http://h/bad.yaml''], Inr (MapV [])) \<and>
   yaml_Unmarshal sample_world ''[{key: a, value: 1}, b]'' = DecodeError [(StrV ''a'', IntV 1)] \<and>
   ioutil_ReadFile sample_world ''spec/part.yaml'' = Some ''[{key: a, value: 1}, b]'' \<and>
   ReadFile sample_world ''spec/part.yaml'' =
     ([FileRead ''spec/part.yaml''], Inr (MapV [(StrV ''a'', IntV 1)]))"
proof -
  have h: "yaml_Unmarshal sample_world ''{'' = DecodeError [] \<and>
      url_Parse sample_world ''spec/bad.yaml'' = Some [] \<and>
      ioutil_ReadFile sample_world ''spec/bad.yaml'' = Some ''{'' \<and>
      url_Parse sample_world ''http://h/bad.yaml'' = Some ''http'' \<and>
      http_Get sample_world ''http://h/bad.yaml'' = Body ''{'' \<and>
      yaml_Unmarshal sample_world ''[{key: a, value: 1}, b]'' =
        DecodeError [(StrV ''a'', IntV 1)] \<and>
      url_Parse sample_world ''spec/part.yaml'' = Some [] \<and>
      ioutil_ReadFile sample_world ''spec/part.yaml'' = Some ''[{key: a, value: 1}, b]''"
    by (simp add: sample_world_def)
  from ReadFile_parse_error_dropped [of sample_world "''{''" "[]" "''spec/bad.yaml''"]
    ReadFile_parse_error_dropped [of sample_world "''{''" "[]" "''http://h/bad.yaml''"]
    ReadFile_parse_error_dropped [of sample_world "''[{key: a, value: 1}, b]''"
      "[(StrV ''a'', IntV 1)]" "''spec/part.yaml''"] h
  show ?thesis by auto
qed

text \<open>
  Claim C5 says that a file part which is a URL or an absolute path passes through
  unchanged. With the base \<^verbatim>\<open>spec/root.yaml\<close> the absolute path \<^verbatim>\<open>/abs/other.yaml\<close>
  becomes \<^verbatim>\<open>spec//abs/other.yaml\<close> and the URL becomes \<^verbatim>\<open>spec/http://h/api.yaml\<close>,
  which is then read as a local file.
\<close>

theorem ref_filename_passthrough_counterexample:
  "ref_filename ''spec/root.yaml'' (strings_Split ''/abs/other.yaml#/a'' CHR ''#'') =
     ''spec//abs/other.yaml'' \<and>
   ref_filename ''spec/root.yaml'' (strings_Split ''http://h/api.yaml#/a'' CHR ''#'') =
     ''spec/http://h/api.yaml'' \<and>
   trace (snd (ReadInfoForRef sample_world ''spec/root.yaml'' ''http://h/api.yaml#/a'' initial_state)) =
     [LogMakingCache, LogResolving 0 ''http://h/api.yaml#/a'',
      FileRead ''spec/http://h/api.yaml'', PrintFileError]"
  by (simp add: ReadInfoForRef_def initial_state_def sample_world_def ReadFile_def
      ref_filename_def filepath_Split_def Let_def)

text \<open>
  Claim C5, amended. The file part is the reference up to its first \<^verbatim>\<open>#\<close>. When it is
  empty the locator to load is the base locator; otherwise it is the directory part of
  the base locator followed by the file part, a plain concatenation. The directory
  part is the base up to and including its last \<^verbatim>\<open>/\<close> (the rest holds no \<^verbatim>\<open>/\<close>), so
  it is empty, and the file part is loaded as it is, exactly when the base holds no
  \<^verbatim>\<open>/\<close>. On a cache miss this locator is the one \<^verbatim>\<open>ReadFile\<close> is called with.
\<close>

theorem ref_filename_concatenates:
  "ref_filename basefile (strings_Split ref CHR ''#'') =
     (if takeWhile (\<lambda>c. c \<noteq> CHR ''#'') ref = [] then basefile
      else fst (filepath_Split basefile) @ takeWhile (\<lambda>c. c \<noteq> CHR ''#'') ref) \<and>
   basefile = fst (filepath_Split basefile) @ snd (filepath_Split basefile) \<and>
   CHR ''/'' \<notin> set (snd (filepath_Split basefile)) \<and>
   (fst (filepath_Split basefile) = [] \<or> last (fst (filepath_Split basefile)) = CHR ''/'') \<and>
   (CHR ''/'' \<notin> set basefile \<longrightarrow> fst (filepath_Split basefile) = []) \<and>
   (cache_get s ref = None \<longrightarrow>
      (\<exists>pre. trace (snd (ReadInfoForRef w basefile ref s)) =
         pre @ fst (ReadFile w (ref_filename basefile (strings_Split ref CHR ''#'')))))"
proof -
  note parts = filepath_Split_parts [OF surjective_pairing, of basefile]
  have tr: "cache_get s ref = None \<longrightarrow>
      (\<exists>pre. trace (snd (ReadInfoForRef w basefile ref s)) =
         pre @ fst (ReadFile w (ref_filename basefile (strings_Split ref CHR ''#''))))"
  proof
    assume miss: "cache_get s ref = None"
    obtain evs r where rf:
      "ReadFile w (ref_filename basefile (strings_Split ref CHR ''#'')) = (evs, r)"
      by (cases "ReadFile w (ref_filename basefile (strings_Split ref CHR ''#''))")
    from ReadInfoForRef_miss(2) [OF miss rf] rf
    show "\<exists>pre. trace (snd (ReadInfoForRef w basefile ref s)) =
         pre @ fst (ReadFile w (ref_filename basefile (strings_Split ref CHR ''#'')))"
      by (metis append.assoc fst_conv)
  qed
  have nodir: "CHR ''/'' \<notin> set basefile \<longrightarrow> fst (filepath_Split basefile) = []"
  proof (intro impI, rule ccontr)
    assume no: "CHR ''/'' \<notin> set basefile" and ne: "fst (filepath_Split basefile) \<noteq> []"
    then have "last (fst (filepath_Split basefile)) = CHR ''/''" using parts(3) by simp
    moreover have "last (fst (filepath_Split basefile)) \<in> set (fst (filepath_Split basefile))"
      using ne by (rule last_in_set)
    moreover have "set (fst (filepath_Split basefile)) \<subseteq> set basefile"
      using parts(1) by (metis set_append Un_upper1)
    ultimately show False using no by auto
  qed
  from ref_filename_eq [of basefile ref] parts nodir tr show ?thesis
    by (intro conjI)
qed

theorem ref_filename_concatenates_witness:
  "ref_filename ''spec/root.yaml'' (strings_Split ''other.yaml#/definitions/Widget'' CHR ''#'') =
     ''spec/other.yaml'' \<and>
   ref_filename ''spec/root.yaml'' (strings_Split ''#/definitions/Widget'' CHR ''#'') =
     ''spec/root.yaml'' \<and>
   filepath_Split ''spec/root.yaml'' = (''spec/'', ''root.yaml'') \<and>
   CHR ''/'' \<notin> set ''root.yaml'' \<and>
   ref_filename ''root.yaml'' (strings_Split ''http://h/api.yaml#/a'' CHR ''#'') =
     ''http://h/api.yaml'' \<and>
   cache_get initial_state ''#/definitions/Widget'' = None \<and>
   trace (snd (ReadInfoForRef sample_world ''spec/root.yaml'' ''#/definitions/Widget'' initial_state)) =
     [LogMakingCache, LogResolving 0 ''#/definitions/Widget''] @
     fst (ReadFile sample_world ''spec/root.yaml'')"
  using ref_filename_concatenates [of "''spec/root.yaml''" "''other.yaml#/definitions/Widget''"
      initial_state sample_world]
    ref_filename_concatenates [of "''spec/root.yaml''" "''#/definitions/Widget''"
      initial_state sample_world]
    ref_filename_concatenates [of "''root.yaml''" "''http://h/api.yaml#/a''"
      initial_state sample_world]
  by (simp add: ReadInfoForRef_def initial_state_def sample_world_def ReadFile_def cache_get_def
      ref_filename_def filepath_Split_def unmarshal_info_def Let_def)

text \<open>
  Claim C9. \<^verbatim>\<open>ReadFile\<close> performs the HTTP GET exactly when the locator parses with a
  scheme that is not empty, and reads the local file exactly when it parses with the
  empty scheme. A locator that does not parse is not, as the claim has it, read from
  disk: the error of \<^verbatim>\<open>url.Parse\<close> is dropped and \<^verbatim>\<open>fileurl.Scheme\<close> dereferences
  nil, as for the file name \<^verbatim>\<open>100%.yaml\<close>.
\<close>

theorem ReadFile_classification:
  "(HttpGet filename \<in> set (fst (ReadFile w filename))) =
     (\<exists>scheme. url_Parse w filename = Some scheme \<and> scheme \<noteq> []) \<and>
   (FileRead filename \<in> set (fst (ReadFile w filename))) = (url_Parse w filename = Some []) \<and>
   (ReadFile w filename = ([], Inl PanicNilDeref)) = (url_Parse w filename = None) \<and>
   url_Parse sample_world ''100%.yaml'' = None \<and>
   ReadFile sample_world ''100%.yaml'' = ([], Inl PanicNilDeref)"
  by (auto simp: ReadFile_def sample_world_def split: option.splits http_result.splits)


text \<open>
  Claim C10. No call of \<^verbatim>\<open>ReadInfoForRef\<close> removes or changes an entry of the cache,
  and a call changes no entry but the one of its own reference. A call that returns a
  value leaves that value in the cache under its reference. On a cache miss, once the
  document is loaded, the value returned and stored is the node the walk ended on,
  which is nil when the load gave nil, and the node reached so far when segments
  could not be followed.
\<close>

theorem ReadInfoForRef_cache_entries:
  "(\<forall>k v. cache_get s k = Some v \<longrightarrow>
      cache_get (snd (ReadInfoForRef w basefile ref s)) k = Some v) \<and>
   (\<forall>k. k \<noteq> ref \<longrightarrow> cache_get (snd (ReadInfoForRef w basefile ref s)) k = cache_get s k) \<and>
   (\<forall>v s'. ReadInfoForRef w basefile ref s = (Inr v, s') \<longrightarrow> cache_get s' ref = Some v) \<and>
   (\<forall>evs info.
      cache_get s ref = None \<and>
      ReadFile w (ref_filename basefile (strings_Split ref CHR ''#'')) = (evs, Inr info) \<longrightarrow>
        fst (ReadInfoForRef w basefile ref s) =
          Inr (walk_fragment info (strings_Split ref CHR ''#'')) \<and>
        cache_get (snd (ReadInfoForRef w basefile ref s)) ref =
          Some (walk_fragment info (strings_Split ref CHR ''#''))) \<and>
   walk_fragment NilV (strings_Split ref CHR ''#'') = NilV"
proof (cases "cache_get s ref")
  case (Some u)
  then have "ReadInfoForRef w basefile ref s = (Inr u, s)" by (rule ReadInfoForRef_hit)
  with Some show ?thesis by (simp add: walk_fragment_NilV)
next
  case None
  obtain evs r where rf:
    "ReadFile w (ref_filename basefile (strings_Split ref CHR ''#'')) = (evs, r)"
    by (cases "ReadFile w (ref_filename basefile (strings_Split ref CHR ''#''))")
  note miss = ReadInfoForRef_miss [OF None rf]
  have keep: "\<forall>k v. cache_get s k = Some v \<longrightarrow>
      cache_get (snd (ReadInfoForRef w basefile ref s)) k = Some v"
    using miss(4) None by (cases r) auto
  have others: "\<forall>k. k \<noteq> ref \<longrightarrow>
      cache_get (snd (ReadInfoForRef w basefile ref s)) k = cache_get s k"
    using miss(4) by (cases r) auto
  have stored: "\<forall>v s'. ReadInfoForRef w basefile ref s = (Inr v, s') \<longrightarrow>
      cache_get s' ref = Some v"
  proof (intro allI impI)
    fix v s' assume ret: "ReadInfoForRef w basefile ref s = (Inr v, s')"
    then have "fst (ReadInfoForRef w basefile ref s) = Inr v"
      and "s' = snd (ReadInfoForRef w basefile ref s)" by simp_all
    then show "cache_get s' ref = Some v"
      using miss(1) miss(4) [of ref] by (cases r) auto
  qed
  have computed: "\<forall>evs' info.
      cache_get s ref = None \<and>
      ReadFile w (ref_filename basefile (strings_Split ref CHR ''#'')) = (evs', Inr info) \<longrightarrow>
        fst (ReadInfoForRef w basefile ref s) =
          Inr (walk_fragment info (strings_Split ref CHR ''#'')) \<and>
        cache_get (snd (ReadInfoForRef w basefile ref s)) ref =
          Some (walk_fragment info (strings_Split ref CHR ''#''))"
    using miss(1) miss(4) [of ref] rf by auto
  from keep others stored computed walk_fragment_NilV [of "strings_Split ref CHR ''#''"]
  show ?thesis by (intro conjI)
qed

theorem ReadInfoForRef_cache_entries_witness:
  "ReadInfoForRef sample_world ''root.yaml'' ''http://h/api.yaml#/a'' initial_state =
     (Inr NilV, snd (ReadInfoForRef sample_world ''root.yaml'' ''http://h/api.yaml#/a'' initial_state)) \<and>
   cache_get (snd (ReadInfoForRef sample_world ''root.yaml'' ''http://h/api.yaml#/a'' initial_state))
     ''http://h/api.yaml#/a'' = Some NilV \<and>
   cache_get initial_state ''#/definitions/Gadget'' = None \<and>
   ReadFile sample_world (ref_filename ''spec/root.yaml''
       (strings_Split ''#/definitions/Gadget'' CHR ''#'')) =
     ([FileRead ''spec/root.yaml''], Inr (MapV sample_doc)) \<and>
   walk_fragment (MapV sample_doc) (strings_Split ''#/definitions/Gadget'' CHR ''#'') =
     MapV [(StrV ''Widget'', MapV [(StrV ''size'', IntV 1)]), (StrV ''tags'', SeqV [StrV ''a''])] \<and>
   cache_get (snd (ReadInfoForRef sample_world ''spec/root.yaml'' ''#/definitions/Gadget'' initial_state))
     ''#/definitions/Gadget'' =
     Some (MapV [(StrV ''Widget'', MapV [(StrV ''size'', IntV 1)]), (StrV ''tags'', SeqV [StrV ''a''])])"
proof -
  have nil: "fst (ReadInfoForRef sample_world ''root.yaml'' ''http://h/api.yaml#/a'' initial_state) =
      Inr NilV"
    by (simp add: ReadInfoForRef_def initial_state_def sample_world_def ReadFile_def
        ref_filename_def filepath_Split_def walk_fragment_def walk_step_def Let_def)
  then have ret: "ReadInfoForRef sample_world ''root.yaml'' ''http://h/api.yaml#/a'' initial_state =
     (Inr NilV, snd (ReadInfoForRef sample_world ''root.yaml'' ''http://h/api.yaml#/a'' initial_state))"
    by (simp add: prod_eq_iff)
  have miss: "cache_get initial_state ''#/definitions/Gadget'' = None"
    by (simp add: cache_get_def initial_state_def)
  have rf: "ReadFile sample_world (ref_filename ''spec/root.yaml''
       (strings_Split ''#/definitions/Gadget'' CHR ''#'')) =
     ([FileRead ''spec/root.yaml''], Inr (MapV sample_doc))"
    by (simp add: sample_world_def ReadFile_def ref_filename_def filepath_Split_def
        unmarshal_info_def)
  have wf: "walk_fragment (MapV sample_doc) (strings_Split ''#/definitions/Gadget'' CHR ''#'') =
     MapV [(StrV ''Widget'', MapV [(StrV ''size'', IntV 1)]), (StrV ''tags'', SeqV [StrV ''a''])]"
    by (simp add: walk_fragment_def walk_step_def sample_doc_def)
  from ReadInfoForRef_cache_entries [of initial_state sample_world "''root.yaml''"
      "''http://h/api.yaml#/a''"] ret
  have c1: "cache_get (snd (ReadInfoForRef sample_world ''root.yaml'' ''http://h/api.yaml#/a'' initial_state))
     ''http://h/api.yaml#/a'' = Some NilV"
    by blast
  from ReadInfoForRef_cache_entries [of initial_state sample_world "''spec/root.yaml''"
      "''#/definitions/Gadget''"] miss rf
  have c2: "cache_get (snd (ReadInfoForRef sample_world ''spec/root.yaml'' ''#/definitions/Gadget'' initial_state))
     ''#/definitions/Gadget'' =
     Some (walk_fragment (MapV sample_doc) (strings_Split ''#/definitions/Gadget'' CHR ''#''))"
    by blast
  from ret c1 miss rf wf c2 show ?thesis by simp
qed

end
